theory Spec2Isabelle
  imports Main "HOL-Library.Word"
begin

unbundle bit_operations_syntax

section \<open>The LC-3 virtual machine of \<open>lc3.c\<close>\<close>

subsection \<open>Constants of the source\<close>

text \<open>
  \<open>uint16_t\<close> is \<open>16 word\<close>; C's \<open>int\<close> is taken to be 32 bits wide, which is
  what the integer promotions of \<open>sign_extend\<close> compute in. Array indices are natural
  numbers, so that an index past the end of an array is visible in the model.
\<close>

type_synonym u16 = "16 word"

definition MEMORY_MAX :: nat where [simp]: "MEMORY_MAX = 2 ^ 16"

definition R_R0 :: nat where [simp]: "R_R0 = 0"
definition R_R7 :: nat where [simp]: "R_R7 = 7"
definition R_PC :: nat where [simp]: "R_PC = 8"
definition R_COND :: nat where [simp]: "R_COND = 9"
definition R_COUNT :: nat where [simp]: "R_COUNT = 10"

definition FL_POS :: u16 where [simp]: "FL_POS = push_bit 0 1"
definition FL_ZRO :: u16 where [simp]: "FL_ZRO = push_bit 1 1"
definition FL_NEG :: u16 where [simp]: "FL_NEG = push_bit 2 1"

definition OP_BR :: u16 where [simp]: "OP_BR = 0"
definition OP_ADD :: u16 where [simp]: "OP_ADD = 1"
definition OP_LD :: u16 where [simp]: "OP_LD = 2"
definition OP_ST :: u16 where [simp]: "OP_ST = 3"
definition OP_JSR :: u16 where [simp]: "OP_JSR = 4"
definition OP_AND :: u16 where [simp]: "OP_AND = 5"
definition OP_LDR :: u16 where [simp]: "OP_LDR = 6"
definition OP_STR :: u16 where [simp]: "OP_STR = 7"
definition OP_RTI :: u16 where [simp]: "OP_RTI = 8"
definition OP_NOT :: u16 where [simp]: "OP_NOT = 9"
definition OP_LDI :: u16 where [simp]: "OP_LDI = 10"
definition OP_STI :: u16 where [simp]: "OP_STI = 11"
definition OP_JMP :: u16 where [simp]: "OP_JMP = 12"
definition OP_RES :: u16 where [simp]: "OP_RES = 13"
definition OP_LEA :: u16 where [simp]: "OP_LEA = 14"
definition OP_TRAP :: u16 where [simp]: "OP_TRAP = 15"

definition TRAP_GETC :: u16 where [simp]: "TRAP_GETC = 0x20"
definition TRAP_OUT :: u16 where [simp]: "TRAP_OUT = 0x21"
definition TRAP_PUTS :: u16 where [simp]: "TRAP_PUTS = 0x22"
definition TRAP_IN :: u16 where [simp]: "TRAP_IN = 0x23"
definition TRAP_PUTSP :: u16 where [simp]: "TRAP_PUTSP = 0x24"
definition TRAP_HALT :: u16 where [simp]: "TRAP_HALT = 0x25"

definition R_BITMASK :: u16 where [simp]: "R_BITMASK = 0x7"
definition BOOL_BITMASK :: u16 where [simp]: "BOOL_BITMASK = 0x1"

definition PC_START :: u16 where [simp]: "PC_START = 0x3000"

subsection \<open>Machine state\<close>

text \<open>
  The globals \<open>memory[MEMORY_MAX]\<close> and \<open>reg[R_COUNT]\<close>, the local \<open>running\<close> of
  \<open>main\<close>, and the two byte streams of the console. Every access to \<open>reg\<close> through a
  three-bit register field is in range; the one access that is not (in \<open>OP_STI\<close>) and the
  pointer walk of \<open>TRAP_PUTS\<close> check the array bound explicitly.
\<close>

record machine =
  memory :: "u16 \<Rightarrow> u16"
  reg :: "nat \<Rightarrow> u16"
  running :: bool
  stdin :: "8 word list"
  stdout :: "8 word list"

datatype error = Aborted machine | Out_Of_Bounds

subsection \<open>\<open>sign_extend\<close> and \<open>update_flags\<close>\<close>

text \<open>
  \<open>x >> (bit_count - 1)\<close> and \<open>0xFFFF << bit_count\<close> are computed in \<open>int\<close> after
  promotion, \<open>x |= ...\<close> converts back to \<open>uint16_t\<close>. The source calls the function
  with \<open>bit_count\<close> 5, 6, 9 and 11 only. For \<open>bit_count = 16\<close> the left shift leaves
  the range of a signed 32-bit \<open>int\<close>; the model takes its 32-bit pattern, of which the
  conversion keeps the low 16 bits. A \<open>bit_count\<close> of 0 has no counterpart in the source.
\<close>

definition sign_extend :: "u16 \<Rightarrow> nat \<Rightarrow> u16" where
  "sign_extend x bit_count =
     (if drop_bit (bit_count - 1) (ucast x :: 32 word) AND 1 \<noteq> 0
      then ucast ((ucast x :: 32 word) OR push_bit bit_count (0xFFFF :: 32 word))
      else x)"

definition update_flags :: "u16 \<Rightarrow> machine \<Rightarrow> machine" where
  "update_flags r s =
     (if reg s (unat r) = 0 then s\<lparr>reg := (reg s)(R_COND := FL_ZRO)\<rparr>
      else if drop_bit 15 (reg s (unat r)) \<noteq> 0 then s\<lparr>reg := (reg s)(R_COND := FL_NEG)\<rparr>
      else s\<lparr>reg := (reg s)(R_COND := FL_POS)\<rparr>)"

subsection \<open>Memory access\<close>

definition MR_KBSR :: u16 where [simp]: "MR_KBSR = 0xFE00"
definition MR_KBDR :: u16 where [simp]: "MR_KBDR = 0xFE02"

text \<open>
  Modelled from the spec: \<open>mem_read\<close> and \<open>mem_write\<close> live in \<open>utils.c\<close>, which the
  source includes but which is not part of it. Reading \<open>KBSR\<close> polls the keyboard: with
  a byte ready, \<open>KBSR\<close> becomes \<open>0x8000\<close> and \<open>KBDR\<close> the byte; otherwise \<open>KBSR\<close>
  becomes 0. Then \<open>memory[addr]\<close> is returned. \<open>mem_write\<close> is an unconditional store.
\<close>

definition mem_read :: "u16 \<Rightarrow> machine \<Rightarrow> u16 \<times> machine" where
  "mem_read addr s =
     (let s' = (if addr = MR_KBSR
                then (case stdin s of
                        [] \<Rightarrow> s\<lparr>memory := (memory s)(MR_KBSR := 0)\<rparr>
                      | b # bs \<Rightarrow> s\<lparr>memory := (memory s)(MR_KBSR := 0x8000, MR_KBDR := ucast b),
                                    stdin := bs\<rparr>)
                else s)
      in (memory s' addr, s'))"

definition mem_write :: "u16 \<Rightarrow> u16 \<Rightarrow> machine \<Rightarrow> machine" where
  "mem_write addr val s = s\<lparr>memory := (memory s)(addr := val)\<rparr>"

subsection \<open>The cases of the opcode \<open>switch\<close>\<close>

text \<open>
  One definition for each \<open>case\<close> of the \<open>switch (op)\<close> in \<open>main\<close>, in the order of
  the source. Register fields are kept as \<open>uint16_t\<close> values, as the source does, and
  turned into indices where they index \<open>reg\<close>.
\<close>

definition op_add :: "u16 \<Rightarrow> machine \<Rightarrow> machine" where
  "op_add instr s =
     (let r0 = drop_bit 9 instr AND R_BITMASK;
          r1 = drop_bit 6 instr AND R_BITMASK;
          imm_flag = drop_bit 5 instr AND BOOL_BITMASK;
          s' = (if imm_flag \<noteq> 0
                then let imm5 = sign_extend (instr AND 0x1F) 5
                     in s\<lparr>reg := (reg s)(unat r0 := reg s (unat r1) + imm5)\<rparr>
                else let r2 = instr AND R_BITMASK
                     in s\<lparr>reg := (reg s)(unat r0 := reg s (unat r1) + reg s (unat r2))\<rparr>)
      in update_flags r0 s')"

definition op_and :: "u16 \<Rightarrow> machine \<Rightarrow> machine" where
  "op_and instr s =
     (let r0 = drop_bit 9 instr AND R_BITMASK;
          r1 = drop_bit 6 instr AND R_BITMASK;
          imm_flag = drop_bit 5 instr AND BOOL_BITMASK;
          s' = (if imm_flag \<noteq> 0
                then let imm5 = sign_extend (instr AND 0x1F) 5
                     in s\<lparr>reg := (reg s)(unat r0 := reg s (unat r1) AND imm5)\<rparr>
                else let r2 = instr AND R_BITMASK
                     in s\<lparr>reg := (reg s)(unat r0 := reg s (unat r1) AND reg s (unat r2))\<rparr>)
      in update_flags r0 s')"

text \<open>\<open>reg[r0] = ~r1\<close>: the complement of the register number \<open>r1\<close>.\<close>

definition op_not :: "u16 \<Rightarrow> machine \<Rightarrow> machine" where
  "op_not instr s =
     (let r0 = drop_bit 9 instr AND R_BITMASK;
          r1 = drop_bit 6 instr AND R_BITMASK;
          s' = s\<lparr>reg := (reg s)(unat r0 := NOT r1)\<rparr>
      in update_flags r0 s')"

definition op_br :: "u16 \<Rightarrow> machine \<Rightarrow> machine" where
  "op_br instr s =
     (let n = drop_bit 11 instr AND BOOL_BITMASK;
          z = drop_bit 10 instr AND BOOL_BITMASK;
          p = drop_bit 9 instr AND BOOL_BITMASK
      in if (n \<noteq> 0 \<and> reg s R_COND = FL_NEG) \<or> (z \<noteq> 0 \<and> reg s R_COND = FL_ZRO)
            \<or> (p \<noteq> 0 \<and> reg s R_COND = FL_POS)
         then let pc_offset = sign_extend (instr AND 0x1FF) 9
              in s\<lparr>reg := (reg s)(R_PC := reg s R_PC + pc_offset)\<rparr>
         else s)"

definition op_jmp :: "u16 \<Rightarrow> machine \<Rightarrow> machine" where
  "op_jmp instr s =
     (let base_r = drop_bit 6 instr AND R_BITMASK
      in s\<lparr>reg := (reg s)(R_PC := reg s (unat base_r))\<rparr>)"

definition op_jsr :: "u16 \<Rightarrow> machine \<Rightarrow> machine" where
  "op_jsr instr s =
     (let s1 = s\<lparr>reg := (reg s)(R_R7 := reg s R_PC)\<rparr>;
          flag = drop_bit 11 instr AND BOOL_BITMASK
      in if flag = 0
         then let base_r = drop_bit 6 instr AND R_BITMASK
              in s1\<lparr>reg := (reg s1)(R_PC := reg s1 (unat base_r))\<rparr>
         else let pc_offset = sign_extend (instr AND 0x7FF) 11
              in s1\<lparr>reg := (reg s1)(R_PC := pc_offset + reg s1 R_R7)\<rparr>)"

definition op_ld :: "u16 \<Rightarrow> machine \<Rightarrow> machine" where
  "op_ld instr s =
     (let r0 = drop_bit 9 instr AND R_BITMASK;
          pc_offset = sign_extend (instr AND 0x1FF) 9;
          (v, s1) = mem_read (reg s R_PC + pc_offset) s
      in update_flags r0 (s1\<lparr>reg := (reg s1)(unat r0 := v)\<rparr>))"

definition op_ldi :: "u16 \<Rightarrow> machine \<Rightarrow> machine" where
  "op_ldi instr s =
     (let r0 = drop_bit 9 instr AND R_BITMASK;
          pc_offset = sign_extend (instr AND 0x1FF) 9;
          (a, s1) = mem_read (reg s R_PC + pc_offset) s;
          (v, s2) = mem_read a s1
      in update_flags r0 (s2\<lparr>reg := (reg s2)(unat r0 := v)\<rparr>))"

definition op_ldr :: "u16 \<Rightarrow> machine \<Rightarrow> machine" where
  "op_ldr instr s =
     (let r0 = drop_bit 9 instr AND R_BITMASK;
          base_r = drop_bit 6 instr AND R_BITMASK;
          offset = sign_extend (instr AND 0x3F) 6;
          (v, s1) = mem_read (reg s (unat base_r) + offset) s
      in update_flags r0 (s1\<lparr>reg := (reg s1)(unat r0 := v)\<rparr>))"

definition op_lea :: "u16 \<Rightarrow> machine \<Rightarrow> machine" where
  "op_lea instr s =
     (let r0 = drop_bit 9 instr AND R_BITMASK;
          pc_offset = sign_extend (instr AND 0x1FF) 9
      in update_flags r0 (s\<lparr>reg := (reg s)(unat r0 := reg s R_PC + pc_offset)\<rparr>))"

text \<open>\<open>mem_write(reg[R_PC] + pc_offset, sr)\<close>: the value written is the register
  number \<open>sr\<close>.\<close>

definition op_st :: "u16 \<Rightarrow> machine \<Rightarrow> machine" where
  "op_st instr s =
     (let sr = drop_bit 9 instr AND R_BITMASK;
          pc_offset = sign_extend (instr AND 0x1FF) 9
      in mem_write (reg s R_PC + pc_offset) sr s)"

text \<open>
  \<open>mem_write(mem_read(reg[R_PC + pc_offset]), reg[sr])\<close>: the offset is added to the
  index \<open>R_PC\<close> inside \<open>reg[...]\<close>, in \<open>int\<close>. The index is within \<open>reg[R_COUNT]\<close> for the
  offsets 0 and 1 only; any other read is outside the array.
\<close>

definition op_sti :: "u16 \<Rightarrow> machine \<Rightarrow> error + machine" where
  "op_sti instr s =
     (let sr = drop_bit 9 instr AND R_BITMASK;
          pc_offset = sign_extend (instr AND 0x1FF) 9;
          i = R_PC + unat pc_offset
      in if i < R_COUNT
         then let (a, s1) = mem_read (reg s i) s
              in Inr (mem_write a (reg s1 (unat sr)) s1)
         else Inl Out_Of_Bounds)"

text \<open>\<open>mem_write(reg[base_r] + offset, sr)\<close>: again the register number.\<close>

definition op_str :: "u16 \<Rightarrow> machine \<Rightarrow> machine" where
  "op_str instr s =
     (let sr = drop_bit 9 instr AND R_BITMASK;
          base_r = drop_bit 6 instr AND R_BITMASK;
          offset = sign_extend (instr AND 0x3F) 6
      in mem_write (reg s (unat base_r) + offset) sr s)"

subsection \<open>Trap routines\<close>

text \<open>
  \<open>TRAP_PUTS\<close>: \<open>c\<close> is a pointer into \<open>memory\<close>, modelled by its index. It is
  advanced without wrapping, so a walk that meets no zero word leaves the array; \<open>*c\<close>
  reads the array directly, not through \<open>mem_read\<close>. \<open>fflush\<close> has no effect on the
  byte stream.
\<close>

function puts_loop :: "nat \<Rightarrow> machine \<Rightarrow> error + machine" where
  "puts_loop c s =
     (if MEMORY_MAX \<le> c then Inl Out_Of_Bounds
      else if memory s (of_nat c) = 0 then Inr s
      else puts_loop (c + 1) (s\<lparr>stdout := stdout s @ [ucast (memory s (of_nat c))]\<rparr>))"
  by pat_completeness auto
termination
  by (relation "measure (\<lambda>(c, s). MEMORY_MAX - c)") auto

definition trap_puts :: "machine \<Rightarrow> error + machine" where
  "trap_puts s = puts_loop (unat (reg s R_R0)) s"

text \<open>
  Modelled from the spec: the bodies of the other five trap routines are placeholders
  in the source (unexpanded macros for GETC, OUT, IN, PUTSP and HALT). \<open>GETC\<close> reads a byte into \<open>R0\<close> and updates the flags, end of input
  being a zero byte; \<open>OUT\<close> writes the low byte of \<open>R0\<close>; \<open>IN\<close> prompts, reads a byte
  with echo into \<open>R0\<close> and updates the flags; \<open>PUTSP\<close> writes, for each word up to a
  zero word, the low byte and then the high byte if it is not zero; \<open>HALT\<close> writes a
  banner and ends the loop.
\<close>

definition read_byte :: "machine \<Rightarrow> 8 word \<times> machine" where
  "read_byte s = (case stdin s of [] \<Rightarrow> (0, s) | b # bs \<Rightarrow> (b, s\<lparr>stdin := bs\<rparr>))"

definition trap_getc :: "machine \<Rightarrow> machine" where
  "trap_getc s =
     (let (b, s1) = read_byte s
      in update_flags (of_nat R_R0) (s1\<lparr>reg := (reg s1)(R_R0 := ucast b)\<rparr>))"

definition trap_out :: "machine \<Rightarrow> machine" where
  "trap_out s = s\<lparr>stdout := stdout s @ [ucast (reg s R_R0)]\<rparr>"

definition in_prompt :: "8 word list" where
  "in_prompt = map of_char ''Enter a character: ''"

definition trap_in :: "machine \<Rightarrow> machine" where
  "trap_in s =
     (let s1 = s\<lparr>stdout := stdout s @ in_prompt\<rparr>;
          (b, s2) = read_byte s1;
          s3 = s2\<lparr>stdout := stdout s2 @ [b]\<rparr>
      in update_flags (of_nat R_R0) (s3\<lparr>reg := (reg s3)(R_R0 := ucast b)\<rparr>))"

function putsp_loop :: "nat \<Rightarrow> machine \<Rightarrow> error + machine" where
  "putsp_loop c s =
     (if MEMORY_MAX \<le> c then Inl Out_Of_Bounds
      else if memory s (of_nat c) = 0 then Inr s
      else let char1 = ucast (memory s (of_nat c) AND 0xFF) :: 8 word;
               char2 = ucast (drop_bit 8 (memory s (of_nat c))) :: 8 word
           in putsp_loop (c + 1)
                (s\<lparr>stdout := stdout s @ [char1] @ (if char2 \<noteq> 0 then [char2] else [])\<rparr>))"
  by pat_completeness auto
termination
  by (relation "measure (\<lambda>(c, s). MEMORY_MAX - c)") auto

definition trap_putsp :: "machine \<Rightarrow> error + machine" where
  "trap_putsp s = putsp_loop (unat (reg s R_R0)) s"

definition halt_banner :: "8 word list" where
  "halt_banner = map of_char ''HALT''"

definition trap_halt :: "machine \<Rightarrow> machine" where
  "trap_halt s = s\<lparr>stdout := stdout s @ halt_banner, running := False\<rparr>"

text \<open>
  The inner \<open>switch (instr & 0xFF)\<close>: a vector that matches no \<open>case\<close> leaves the
  state as it is.
\<close>

definition trap_dispatch :: "u16 \<Rightarrow> machine \<Rightarrow> error + machine" where
  "trap_dispatch instr s =
     (let v = instr AND 0xFF
      in if v = TRAP_GETC then Inr (trap_getc s)
         else if v = TRAP_OUT then Inr (trap_out s)
         else if v = TRAP_PUTS then trap_puts s
         else if v = TRAP_IN then Inr (trap_in s)
         else if v = TRAP_PUTSP then trap_putsp s
         else if v = TRAP_HALT then Inr (trap_halt s)
         else Inr s)"

text \<open>
  \<open>case OP_TRAP\<close> has no \<open>break\<close> after its inner \<open>switch\<close>: control runs on into
  \<open>case OP_RES: case OP_RTI: default: abort();\<close>.
\<close>

definition op_trap :: "u16 \<Rightarrow> machine \<Rightarrow> error + machine" where
  "op_trap instr s =
     (let s1 = s\<lparr>reg := (reg s)(R_R7 := reg s R_PC)\<rparr>
      in case trap_dispatch instr s1 of
           Inl e \<Rightarrow> Inl e
         | Inr s2 \<Rightarrow> Inl (Aborted s2))"

subsection \<open>The fetch-execute loop\<close>

definition execute :: "u16 \<Rightarrow> machine \<Rightarrow> error + machine" where
  "execute instr s =
     (let op = drop_bit 12 instr
      in if op = OP_ADD then Inr (op_add instr s)
         else if op = OP_AND then Inr (op_and instr s)
         else if op = OP_NOT then Inr (op_not instr s)
         else if op = OP_BR then Inr (op_br instr s)
         else if op = OP_JMP then Inr (op_jmp instr s)
         else if op = OP_JSR then Inr (op_jsr instr s)
         else if op = OP_LD then Inr (op_ld instr s)
         else if op = OP_LDI then Inr (op_ldi instr s)
         else if op = OP_LDR then Inr (op_ldr instr s)
         else if op = OP_LEA then Inr (op_lea instr s)
         else if op = OP_ST then Inr (op_st instr s)
         else if op = OP_STI then op_sti instr s
         else if op = OP_STR then Inr (op_str instr s)
         else if op = OP_TRAP then op_trap instr s
         else Inl (Aborted s))"

text \<open>\<open>instr = mem_read(reg[R_PC]++)\<close>, then the dispatch on \<open>instr >> 12\<close>.\<close>

definition step :: "machine \<Rightarrow> error + machine" where
  "step s =
     (let pc = reg s R_PC;
          s1 = s\<lparr>reg := (reg s)(R_PC := pc + 1)\<rparr>;
          (instr, s2) = mem_read pc s1
      in execute instr s2)"

text \<open>
  The state in which \<open>main\<close> enters its loop: the images are in \<open>memory\<close>, the
  registers are those of a zero-initialised global with \<open>COND\<close> and \<open>PC\<close> set.
\<close>

definition boot :: "(u16 \<Rightarrow> u16) \<Rightarrow> 8 word list \<Rightarrow> machine" where
  "boot img inp =
     \<lparr>memory = img, reg = (\<lambda>_. 0)(R_COND := FL_ZRO, R_PC := PC_START),
      running = True, stdin = inp, stdout = []\<rparr>"

text \<open>\<open>while (running)\<close>, cut off after \<open>n\<close> iterations.\<close>

fun run :: "nat \<Rightarrow> machine \<Rightarrow> error + machine" where
  "run 0 s = Inr s"
| "run (Suc n) s =
     (if running s
      then (case step s of Inl e \<Rightarrow> Inl e | Inr s' \<Rightarrow> run n s')
      else Inr s)"

declare puts_loop.simps [simp del] putsp_loop.simps [simp del]

subsection \<open>Notions of the specification\<close>

text \<open>The number of bits set in a word, and the three admissible values of \<open>COND\<close>.\<close>

definition popcount :: "u16 \<Rightarrow> nat" where
  "popcount w = length (filter (bit w) [0..<16])"

definition cond_valid :: "machine \<Rightarrow> bool" where
  "cond_valid s = (reg s R_COND = FL_NEG \<or> reg s R_COND = FL_ZRO \<or> reg s R_COND = FL_POS)"

text \<open>The machine state an execution ends in, when it ends in the loop or in \<open>abort()\<close>.\<close>

definition last_state :: "error + machine \<Rightarrow> machine option" where
  "last_state r =
     (case r of Inr s \<Rightarrow> Some s | Inl (Aborted s) \<Rightarrow> Some s | Inl Out_Of_Bounds \<Rightarrow> None)"

subsection \<open>Example states\<close>

text \<open>\<open>ADD R0, R0, #1\<close> at \<open>0x3000\<close>, all registers zero.\<close>

definition add_start :: machine where
  "add_start = boot ((\<lambda>_. 0)(0x3000 := 0x1021)) []"

text \<open>The string \<open>HI!\<close> at \<open>0x4000\<close>, with \<open>R0\<close> pointing to it.\<close>

definition hi_state :: machine where
  "hi_state = \<lparr>memory = (\<lambda>_. 0)(0x4000 := 0x48, 0x4001 := 0x49, 0x4002 := 0x21),
      reg = (\<lambda>_. 0)(R_COND := FL_ZRO, R_PC := PC_START, R_R0 := 0x4000),
      running = True, stdin = [], stdout = []\<rparr>"

text \<open>\<open>NOT R0, R1\<close> (\<open>0x907F\<close>) at \<open>0x3000\<close>, with \<open>R1 = 0x00FF\<close>.\<close>

definition not_start :: machine where
  "not_start = \<lparr>memory = (\<lambda>_. 0)(0x3000 := 0x907F),
      reg = (\<lambda>_. 0)(R_COND := FL_ZRO, R_PC := PC_START, 1 := 0x00FF),
      running = True, stdin = [], stdout = []\<rparr>"

text \<open>
  \<open>STI R0, #1\<close> (\<open>0xB001\<close>) at \<open>0x3000\<close>, with \<open>R0 = 0xBEEF\<close>. The pointer slot
  \<open>PC + 1 = 0x3002\<close> holds \<open>0x4000\<close>; address 2, the value of \<open>COND\<close>, holds \<open>0x5000\<close>.
\<close>

definition sti_start :: machine where
  "sti_start = \<lparr>memory = (\<lambda>_. 0)(0x3000 := 0xB001, 0x3002 := 0x4000, 0x0002 := 0x5000),
      reg = (\<lambda>_. 0)(R_COND := FL_ZRO, R_PC := PC_START, R_R0 := 0xBEEF),
      running = True, stdin = [], stdout = []\<rparr>"

text \<open>\<open>STI R0, #2\<close> (\<open>0xB002\<close>) at \<open>0x3000\<close>.\<close>

definition sti_far_start :: machine where
  "sti_far_start = boot ((\<lambda>_. 0)(0x3000 := 0xB002)) []"

text \<open>
  \<open>ST R1, #5\<close> (\<open>0x3205\<close>) at \<open>0x3000\<close> and \<open>LD R2, #4\<close> (\<open>0x2404\<close>) at \<open>0x3001\<close>, with
  \<open>R1 = 0x1234\<close>: both address \<open>0x3006\<close>.
\<close>

definition st_ld_start :: machine where
  "st_ld_start = \<lparr>memory = (\<lambda>_. 0)(0x3000 := 0x3205, 0x3001 := 0x2404),
      reg = (\<lambda>_. 0)(R_COND := FL_ZRO, R_PC := PC_START, 1 := 0x1234),
      running = True, stdin = [], stdout = []\<rparr>"

text \<open>\<open>STR R1, R2, #0\<close> (\<open>0x7280\<close>) at \<open>0x3000\<close>, with \<open>R1 = 0x1234\<close> and \<open>R2 = 0x4000\<close>.\<close>

definition str_start :: machine where
  "str_start = \<lparr>memory = (\<lambda>_. 0)(0x3000 := 0x7280),
      reg = (\<lambda>_. 0)(R_COND := FL_ZRO, R_PC := PC_START, 1 := 0x1234, 2 := 0x4000),
      running = True, stdin = [], stdout = []\<rparr>"

text \<open>\<open>TRAP 0x00\<close> (\<open>0xF000\<close>) at \<open>0x3000\<close>: a vector outside \<open>0x20..0x25\<close>.\<close>

definition trap_start :: machine where
  "trap_start = boot ((\<lambda>_. 0)(0x3000 := 0xF000)) []"

section \<open>Properties\<close>

subsection \<open>Sign extension\<close>

lemma ffff_int: "(0xFFFF :: int) = mask 16"
  by (simp add: mask_eq_exp_minus_1)

lemma ffff_word32: "(0xFFFF :: 32 word) = mask 16"
  by (simp add: mask_eq_exp_minus_1)

lemma sign_bit_test:
  assumes "n \<le> 16"
  shows "(drop_bit (n - Suc 0) (ucast (v::u16) :: 32 word) AND 1 = 0) = (\<not> bit v (n - Suc 0))"
proof -
  have "(drop_bit (n - Suc 0) (ucast v :: 32 word) AND 1 = 0)
          = even (drop_bit (n - Suc 0) (ucast v :: 32 word))"
    by (simp add: and_one_eq even_iff_mod_2_eq_zero)
  also have "\<dots> = (\<not> bit (ucast v :: 32 word) (n - Suc 0))"
    by (simp add: bit_iff_odd_drop_bit)
  also have "\<dots> = (\<not> bit v (n - Suc 0))"
    using assms by (auto simp add: bit_simps)
  finally show ?thesis .
qed

text \<open>
  Claim C9. For a width \<open>n\<close> from 1 to 16 and a value \<open>v\<close> below \<open>2 ^ n\<close>,
  \<open>sign_extend v n\<close> is \<open>v\<close> when bit \<open>n - 1\<close> of \<open>v\<close> is clear, and
  \<open>v | (0xFFFF << n)\<close> cut down to 16 bits when it is set. The right-hand side is
  computed on unbounded integers.
\<close>

theorem sign_extend_spec:
  assumes "1 \<le> n" and "n \<le> 16" and "uint v < 2 ^ n"
  shows "uint (sign_extend v n) =
          (if bit v (n - 1) then (uint v OR push_bit n 0xFFFF) AND 0xFFFF else uint v)"
proof (cases "bit v (n - 1)")
  case True
  have "sign_extend v n = ucast ((ucast v :: 32 word) OR push_bit n (0xFFFF :: 32 word))"
    using assms True by (simp add: sign_extend_def sign_bit_test)
  also have "uint \<dots> = (uint v OR push_bit n 0xFFFF) AND 0xFFFF"
    unfolding ffff_int ffff_word32
    by (rule bit_eqI) (auto simp add: bit_simps dest: bit_imp_le_length)
  finally show ?thesis using True by simp
next
  case False
  then show ?thesis using assms by (simp add: sign_extend_def sign_bit_test)
qed

theorem sign_extend_spec_witness:
  "1 \<le> (5::nat) \<and> (5::nat) \<le> 16 \<and> uint (0x1E :: u16) < 2 ^ 5
     \<and> uint (sign_extend 0x1E 5) = 0xFFFE"
  using sign_extend_spec [of 5 "0x1E"] by simp

subsection \<open>Decoding and fetching\<close>

lemma reg_field_bound: "unat (w AND 7 :: u16) < 8"
proof -
  have "unat (w AND 7) \<le> unat (7 :: u16)"
    by (rule word_and_le1 [THEN word_le_nat_alt [THEN iffD1]])
  then show ?thesis by simp
qed

lemma flag_bit_test: "(drop_bit k (w :: u16) AND 1 = 0) = (\<not> bit w k)"
  by (simp add: and_one_eq even_iff_mod_2_eq_zero bit_iff_odd_drop_bit)

lemma reg_mem_read [simp]: "reg (snd (mem_read a s)) = reg s"
  by (simp add: mem_read_def Let_def split: list.split)

lemma mem_read_reg_update:
  "mem_read a (s\<lparr>reg := r\<rparr>) = (fst (mem_read a s), (snd (mem_read a s))\<lparr>reg := r\<rparr>)"
  by (simp add: mem_read_def Let_def split: list.split)

text \<open>A step executes the word fetched at \<open>PC\<close>, with \<open>PC\<close> already advanced.\<close>

lemma step_fetch:
  "step s = execute (fst (mem_read (reg s R_PC) s))
              ((snd (mem_read (reg s R_PC) s))\<lparr>reg := (reg s)(R_PC := reg s R_PC + 1)\<rparr>)"
  by (simp add: step_def Let_def mem_read_reg_update del: R_PC_def)

subsection \<open>Condition flags\<close>

lemma top_bit_test: "(drop_bit 15 (w :: u16) = 0) = (\<not> bit w 15)"
proof
  assume "drop_bit 15 w = 0"
  then have "\<not> bit (drop_bit 15 w) 0" by simp
  then show "\<not> bit w 15" by (simp add: bit_simps)
next
  assume h: "\<not> bit w 15"
  show "drop_bit 15 w = 0"
  proof (rule bit_word_eqI)
    fix n assume "n < LENGTH(16)"
    then show "bit (drop_bit 15 w) n = bit (0 :: u16) n"
      using h by (cases n) (auto simp add: bit_simps dest: bit_imp_le_length)
  qed
qed

lemma negative_iff_top_bit: "(sint (w :: u16) < 0) = bit w 15"
  using bit_last_iff [of w] by simp

lemma update_flags_reg:
  "reg (update_flags r s) = (reg s)(R_COND :=
     (if reg s (unat r) = 0 then FL_ZRO else if bit (reg s (unat r)) 15 then FL_NEG else FL_POS))"
  by (simp add: update_flags_def top_bit_test)

subsection \<open>ADD\<close>

text \<open>
  Claim C8. ADD wraps modulo \<open>2 ^ 16\<close> and the flags follow the two's-complement sign of
  the result: for any fetched ADD instruction the destination register holds the sum of
  the operands modulo \<open>2 ^ 16\<close>, and \<open>COND\<close> is \<open>N\<close> exactly when that result is
  negative as a signed number. With \<open>R0 = 0x7FFF\<close>, executing \<open>0x1021\<close> at \<open>0x3000\<close>
  gives \<open>R0 = 0x8000\<close> and \<open>COND = N\<close>.
\<close>

theorem add_wraps:
  "(fst (mem_read (reg s R_PC) s) = instr \<and> drop_bit 12 instr = OP_ADD \<longrightarrow>
      (\<exists>s'. step s = Inr s'
         \<and> unat (reg s' (unat (drop_bit 9 instr AND 7))) =
             (unat (reg s (unat (drop_bit 6 instr AND 7)))
               + unat (if bit instr 5 then sign_extend (instr AND 0x1F) 5
                       else reg s (unat (instr AND 7)))) mod 2 ^ 16
         \<and> (reg s' R_COND = FL_NEG) = (sint (reg s' (unat (drop_bit 9 instr AND 7))) < 0)))
   \<and> (\<exists>s'. step ((boot (img(0x3000 := 0x1021)) inp)\<lparr>reg := (reg (boot img inp))(R_R0 := 0x7FFF)\<rparr>)
              = Inr s'
         \<and> reg s' R_R0 = 0x8000 \<and> reg s' R_COND = FL_NEG)"
proof (intro conjI impI)
  assume h: "fst (mem_read (reg s R_PC) s) = instr \<and> drop_bit 12 instr = OP_ADD"
  have b9: "unat (drop_bit 9 instr AND 7) < 8" and b6: "unat (drop_bit 6 instr AND 7) < 8"
    and b0: "unat (instr AND 7) < 8"
    by (rule reg_field_bound)+
  define dr where "dr = unat (drop_bit 9 instr AND 7)"
  define a where "a = reg s (unat (drop_bit 6 instr AND 7))"
  define b where "b = (if bit instr 5 then sign_extend (instr AND 0x1F) 5
                       else reg s (unat (instr AND 7)))"
  obtain s' where run: "step s = Inr s'" and r: "reg s' dr = a + b"
    and c: "reg s' R_COND = (if a + b = 0 then FL_ZRO else if bit (a + b) 15 then FL_NEG else FL_POS)"
    using h b9 b6 b0 unfolding dr_def a_def b_def
    by (simp add: step_fetch execute_def op_add_def flag_bit_test update_flags_reg Let_def)
  have "unat (a + b) = (unat a + unat b) mod 2 ^ 16"
    by (simp add: unat_word_ariths)
  moreover have "(reg s' R_COND = FL_NEG) = (sint (a + b) < 0)"
    using c by (auto simp add: negative_iff_top_bit)
  ultimately show "\<exists>s'. step s = Inr s'
         \<and> unat (reg s' (unat (drop_bit 9 instr AND 7))) =
             (unat (reg s (unat (drop_bit 6 instr AND 7)))
               + unat (if bit instr 5 then sign_extend (instr AND 0x1F) 5
                       else reg s (unat (instr AND 7)))) mod 2 ^ 16
         \<and> (reg s' R_COND = FL_NEG) = (sint (reg s' (unat (drop_bit 9 instr AND 7))) < 0)"
    using run r unfolding dr_def a_def b_def by simp
next
  show "\<exists>s'. step ((boot (img(0x3000 := 0x1021)) inp)\<lparr>reg := (reg (boot img inp))(R_R0 := 0x7FFF)\<rparr>)
              = Inr s'
         \<and> reg s' R_R0 = 0x8000 \<and> reg s' R_COND = FL_NEG"
    by (simp add: step_def boot_def mem_read_def execute_def op_add_def sign_extend_def
        update_flags_def)
qed

theorem add_wraps_witness:
  "fst (mem_read (reg ((boot ((\<lambda>_. 0)(0x3000 := 0x1021)) [])\<lparr>reg := (\<lambda>_. 0)(R_PC := 0x3000, R_R0 := 0xFFFF)\<rparr>) R_PC)
         ((boot ((\<lambda>_. 0)(0x3000 := 0x1021)) [])\<lparr>reg := (\<lambda>_. 0)(R_PC := 0x3000, R_R0 := 0xFFFF)\<rparr>)) = 0x1021
   \<and> drop_bit 12 (0x1021 :: u16) = OP_ADD
   \<and> (\<exists>s'. step ((boot ((\<lambda>_. 0)(0x3000 := 0x1021)) [])\<lparr>reg := (\<lambda>_. 0)(R_PC := 0x3000, R_R0 := 0xFFFF)\<rparr>) = Inr s'
         \<and> unat (reg s' 0) = 0 \<and> reg s' R_COND \<noteq> FL_NEG)"
  using add_wraps [of "(boot ((\<lambda>_. 0)(0x3000 := 0x1021)) [])\<lparr>reg := (\<lambda>_. 0)(R_PC := 0x3000, R_R0 := 0xFFFF)\<rparr>"
      "0x1021" "\<lambda>_. 0" "[]"]
  by (simp add: boot_def mem_read_def sign_extend_def step_def execute_def op_add_def
      update_flags_def)

subsection \<open>JSR and JSRR\<close>

text \<open>
  Claim C7. A fetched JSR/JSRR instruction sets \<open>R7\<close> to the incremented \<open>PC\<close> before
  the target is computed: with bit 11 set the new \<open>PC\<close> is \<open>R7\<close> plus the sign-extended
  11-bit offset, otherwise it is read from the base register after \<open>R7\<close> was written.
  Executing \<open>0x4802\<close> fetched at \<open>0x3000\<close> leaves \<open>R7 = 0x3001\<close> and \<open>PC = 0x3003\<close>.
\<close>

theorem jsr_links_then_jumps:
  "(fst (mem_read (reg s R_PC) s) = instr \<and> drop_bit 12 instr = OP_JSR \<longrightarrow>
      (\<exists>s'. step s = Inr s' \<and> reg s' R_R7 = reg s R_PC + 1
         \<and> reg s' R_PC =
              (if bit instr 11 then reg s' R_R7 + sign_extend (instr AND 0x7FF) 11
               else ((reg s)(R_R7 := reg s R_PC + 1)) (unat (drop_bit 6 instr AND 7)))))
   \<and> (\<exists>s'. step (boot (img(0x3000 := 0x4802)) inp) = Inr s'
         \<and> reg s' R_R7 = 0x3001 \<and> reg s' R_PC = 0x3003)"
proof (intro conjI impI)
  assume h: "fst (mem_read (reg s R_PC) s) = instr \<and> drop_bit 12 instr = OP_JSR"
  have lt: "unat (drop_bit 6 instr AND 7) < 8" by (rule reg_field_bound)
  show "\<exists>s'. step s = Inr s' \<and> reg s' R_R7 = reg s R_PC + 1
         \<and> reg s' R_PC =
              (if bit instr 11 then reg s' R_R7 + sign_extend (instr AND 0x7FF) 11
               else ((reg s)(R_R7 := reg s R_PC + 1)) (unat (drop_bit 6 instr AND 7)))"
    using h lt by (simp add: step_fetch execute_def op_jsr_def flag_bit_test)
next
  show "\<exists>s'. step (boot (img(0x3000 := 0x4802)) inp) = Inr s'
         \<and> reg s' R_R7 = 0x3001 \<and> reg s' R_PC = 0x3003"
    by (simp add: step_def boot_def mem_read_def execute_def op_jsr_def sign_extend_def)
qed

theorem jsr_links_then_jumps_witness:
  "fst (mem_read (reg (boot ((\<lambda>_. 0)(0x3000 := 0x4802)) []) R_PC)
         (boot ((\<lambda>_. 0)(0x3000 := 0x4802)) [])) = 0x4802
   \<and> drop_bit 12 (0x4802 :: u16) = OP_JSR
   \<and> (\<exists>s'. step (boot ((\<lambda>_. 0)(0x3000 := 0x4802)) []) = Inr s'
         \<and> reg s' R_R7 = 0x3001 \<and> reg s' R_PC = 0x3003)"
  using jsr_links_then_jumps [of "boot ((\<lambda>_. 0)(0x3000 := 0x4802)) []" "0x4802" "\<lambda>_. 0" "[]"]
  by (simp add: boot_def mem_read_def sign_extend_def)

subsection \<open>The condition register\<close>

lemma reg_field_not_cond [simp]: "unat (w AND 7 :: u16) \<noteq> 9"
  using reg_field_bound [of w] by simp

lemma cond_valid_update_flags [simp]: "cond_valid (update_flags r s)"
  by (simp add: cond_valid_def update_flags_def)

lemma cond_valid_reg_cong: "reg s' R_COND = reg s R_COND \<Longrightarrow> cond_valid s' = cond_valid s"
  by (simp add: cond_valid_def)

lemma reg_mem_write [simp]: "reg (mem_write a v s) = reg s"
  by (simp add: mem_write_def)

lemma puts_loop_reg: "puts_loop c s = Inr s' \<Longrightarrow> reg s' = reg s"
proof (induction c s rule: puts_loop.induct)
  case (1 c s)
  let ?s = "s\<lparr>stdout := stdout s @ [ucast (memory s (of_nat c))]\<rparr>"
  show ?case
  proof (cases "MEMORY_MAX \<le> c \<or> memory s (of_nat c) = 0")
    case True
    with "1.prems" show ?thesis by (subst (asm) puts_loop.simps) (auto split: if_splits)
  next
    case False
    then have "puts_loop c s = puts_loop (c + 1) ?s"
      by (subst puts_loop.simps) simp
    with "1.prems" have "puts_loop (c + 1) ?s = Inr s'" by simp
    with False have "reg s' = reg ?s" by (intro "1.IH") simp_all
    then show ?thesis by simp
  qed
qed

lemma putsp_loop_reg: "putsp_loop c s = Inr s' \<Longrightarrow> reg s' = reg s"
proof (induction c s rule: putsp_loop.induct)
  case (1 c s)
  define char1 :: "8 word" where "char1 = ucast (memory s (of_nat c) AND 0xFF)"
  define char2 :: "8 word" where "char2 = ucast (drop_bit 8 (memory s (of_nat c)))"
  let ?s = "s\<lparr>stdout := stdout s @ [char1] @ (if char2 \<noteq> 0 then [char2] else [])\<rparr>"
  show ?case
  proof (cases "MEMORY_MAX \<le> c \<or> memory s (of_nat c) = 0")
    case True
    with "1.prems" show ?thesis by (subst (asm) putsp_loop.simps) (auto split: if_splits)
  next
    case False
    then have "putsp_loop c s = putsp_loop (c + 1) ?s"
      by (subst putsp_loop.simps) (simp add: Let_def char1_def char2_def)
    with "1.prems" have "putsp_loop (c + 1) ?s = Inr s'" by simp
    with False have "reg s' = reg ?s"
      by (intro "1.IH" [of char1 char2]) (simp_all add: char1_def char2_def)
    then show ?thesis by simp
  qed
qed

lemma read_byte_reg [simp]: "reg (snd (read_byte s)) = reg s"
  by (simp add: read_byte_def split: list.split)

lemma trap_dispatch_cond:
  assumes "cond_valid s" and "trap_dispatch instr s = Inr s'"
  shows "cond_valid s'"
proof -
  consider "s' = trap_getc s" | "s' = trap_in s" | "reg s' = reg s"
    using assms(2)
    by (auto simp add: trap_dispatch_def Let_def trap_out_def trap_halt_def trap_puts_def
        trap_putsp_def split: if_splits dest: puts_loop_reg putsp_loop_reg)
  then show ?thesis
  proof cases
    case 1 then show ?thesis by (simp add: trap_getc_def split: prod.split)
  next
    case 2 then show ?thesis by (simp add: trap_in_def Let_def split: prod.split)
  next
    case 3 then show ?thesis using assms(1) by (simp add: cond_valid_def)
  qed
qed


lemma flag_ops_cond:
  "cond_valid (op_add instr s)" "cond_valid (op_and instr s)" "cond_valid (op_not instr s)"
  "cond_valid (op_ld instr s)" "cond_valid (op_ldi instr s)" "cond_valid (op_ldr instr s)"
  "cond_valid (op_lea instr s)"
  by (simp_all add: op_add_def op_and_def op_not_def op_ld_def op_ldi_def op_ldr_def op_lea_def
      Let_def split: prod.split)

lemma other_ops_cond:
  "cond_valid (op_br instr s) = cond_valid s" "cond_valid (op_jmp instr s) = cond_valid s"
  "cond_valid (op_jsr instr s) = cond_valid s" "cond_valid (op_st instr s) = cond_valid s"
  "cond_valid (op_str instr s) = cond_valid s"
  by (simp_all add: cond_valid_def op_br_def op_jmp_def op_jsr_def op_st_def op_str_def Let_def)

lemma mem_read_regD: "mem_read a s = (v, s1) \<Longrightarrow> reg s1 = reg s"
  using reg_mem_read [of a s] by simp

lemma op_sti_cond:
  assumes "op_sti instr s = Inr s'"
  shows "cond_valid s' = cond_valid s"
proof -
  define i where "i = R_PC + unat (sign_extend (instr AND 0x1FF) 9)"
  obtain a s1 where m: "mem_read (reg s i) s = (a, s1)" by (cases "mem_read (reg s i) s")
  then have "reg s1 = reg s" by (rule mem_read_regD)
  moreover have "s' = mem_write a (reg s1 (unat (drop_bit 9 instr AND R_BITMASK))) s1"
    using assms m unfolding op_sti_def Let_def i_def [symmetric]
    by (simp split: if_splits)
  ultimately show ?thesis by (simp add: cond_valid_def)
qed

lemma puts_loop_no_abort: "puts_loop c s \<noteq> Inl (Aborted x)"
proof (induction c s rule: puts_loop.induct)
  case (1 c s)
  show ?case
  proof (cases "MEMORY_MAX \<le> c \<or> memory s (of_nat c) = 0")
    case True
    then show ?thesis by (subst puts_loop.simps) auto
  next
    case False
    then show ?thesis using "1.IH" by (subst puts_loop.simps) simp
  qed
qed

lemma putsp_loop_no_abort: "putsp_loop c s \<noteq> Inl (Aborted x)"
proof (induction c s rule: putsp_loop.induct)
  case (1 c s)
  show ?case
  proof (cases "MEMORY_MAX \<le> c \<or> memory s (of_nat c) = 0")
    case True
    then show ?thesis by (subst putsp_loop.simps) auto
  next
    case False
    then show ?thesis using "1.IH" by (subst putsp_loop.simps) (simp add: Let_def)
  qed
qed

lemma trap_dispatch_no_abort: "trap_dispatch instr s \<noteq> Inl (Aborted x)"
  by (simp add: trap_dispatch_def Let_def trap_puts_def trap_putsp_def puts_loop_no_abort
      putsp_loop_no_abort)

lemma op_trap_aborts: "op_trap instr s \<noteq> Inr s'"
  by (simp add: op_trap_def Let_def split: sum.split)

lemma op_trap_cond:
  assumes "cond_valid s" and "op_trap instr s = Inl (Aborted s')"
  shows "cond_valid s'"
proof -
  let ?s1 = "s\<lparr>reg := (reg s)(R_R7 := reg s R_PC)\<rparr>"
  have "cond_valid ?s1" using assms(1) by (simp add: cond_valid_def)
  moreover have "trap_dispatch instr ?s1 = Inr s'"
    using assms(2) trap_dispatch_no_abort [of instr ?s1 s']
    by (simp add: op_trap_def Let_def split: sum.splits)
  ultimately show ?thesis by (rule trap_dispatch_cond)
qed

lemma execute_cond:
  assumes "cond_valid s" and "execute instr s = Inr s'"
  shows "cond_valid s'"
  using assms unfolding execute_def Let_def
  by (auto simp add: flag_ops_cond other_ops_cond op_sti_cond op_trap_aborts split: if_splits)

lemma op_sti_no_abort: "op_sti instr s \<noteq> Inl (Aborted x)"
  by (simp add: op_sti_def Let_def split: prod.split)

lemma execute_abort_cond:
  assumes "cond_valid s" and "execute instr s = Inl (Aborted s')"
  shows "cond_valid s'"
  using assms unfolding execute_def Let_def
  by (auto simp add: op_sti_no_abort split: if_splits intro: op_trap_cond)

lemma fetched_cond:
  "cond_valid ((snd (mem_read a s))\<lparr>reg := (reg s)(R_PC := v)\<rparr>) = cond_valid s"
  by (simp add: cond_valid_def)

lemma step_cond: "cond_valid s \<Longrightarrow> step s = Inr s' \<Longrightarrow> cond_valid s'"
  unfolding step_fetch by (erule execute_cond [rotated]) (simp only: fetched_cond)

lemma step_abort_cond: "cond_valid s \<Longrightarrow> step s = Inl (Aborted s') \<Longrightarrow> cond_valid s'"
  unfolding step_fetch by (erule execute_abort_cond [rotated]) (simp only: fetched_cond)

lemma run_cond: "cond_valid s \<Longrightarrow> run n s = Inr s' \<Longrightarrow> cond_valid s'"
proof (induction n arbitrary: s)
  case 0
  then show ?case by simp
next
  case (Suc n)
  show ?case
  proof (cases "running s")
    case True
    with Suc.prems(2) obtain s1 where 1: "step s = Inr s1" and 2: "run n s1 = Inr s'"
      by (auto split: sum.splits)
    from Suc.prems(1) 1 have "cond_valid s1" by (rule step_cond)
    then show ?thesis using 2 by (rule Suc.IH)
  next
    case False
    with Suc.prems show ?thesis by simp
  qed
qed

lemma run_abort_cond: "cond_valid s \<Longrightarrow> run n s = Inl (Aborted s') \<Longrightarrow> cond_valid s'"
proof (induction n arbitrary: s)
  case 0
  then show ?case by simp
next
  case (Suc n)
  show ?case
  proof (cases "running s")
    case True
    with Suc.prems(2) consider "step s = Inl (Aborted s')"
      | s1 where "step s = Inr s1" "run n s1 = Inl (Aborted s')"
      by (auto split: sum.splits)
    then show ?thesis
    proof cases
      case 1 with Suc.prems(1) show ?thesis by (rule step_abort_cond)
    next
      case 2
      from Suc.prems(1) 2(1) have "cond_valid s1" by (rule step_cond)
      then show ?thesis using 2(2) by (rule Suc.IH)
    qed
  next
    case False
    with Suc.prems show ?thesis by simp
  qed
qed

lemma popcount_flags: "popcount FL_NEG = 1" "popcount FL_ZRO = 1" "popcount FL_POS = 1"
  by (simp_all add: popcount_def upt_rec bit_numeral_simps)

lemma boot_cond: "reg (boot img inp) R_COND = FL_ZRO"
  by (simp add: boot_def)


lemma popcount_cond: "cond_valid s \<Longrightarrow> popcount (reg s R_COND) = 1"
  unfolding cond_valid_def using popcount_flags by auto

lemma last_state_cases:
  "last_state r = Some s' \<Longrightarrow> r = Inr s' \<or> r = Inl (Aborted s')"
  by (auto simp add: last_state_def split: sum.splits error.splits)

text \<open>
  Claim C6. \<open>COND\<close> is \<open>Z\<close> when the loop is entered. Every state an execution from
  there reaches, in the loop or at \<open>abort()\<close>, has \<open>COND\<close> equal to one of \<open>FL_NEG\<close>,
  \<open>FL_ZRO\<close>, \<open>FL_POS\<close>, with exactly one bit set. From any state at all, a fetched
  instruction that updates the flags (ADD, AND, NOT, LD, LDI, LDR, LEA) leaves such a
  \<open>COND\<close>, and no step from a state with such a \<open>COND\<close> leaves it otherwise.
\<close>

theorem cond_one_hot:
  "reg (boot img inp) R_COND = FL_ZRO
   \<and> (last_state (run n (boot img inp)) = Some s' \<longrightarrow>
        cond_valid s' \<and> popcount (reg s' R_COND) = 1)
   \<and> (drop_bit 12 (fst (mem_read (reg s R_PC) s))
          \<in> {OP_ADD, OP_AND, OP_NOT, OP_LD, OP_LDI, OP_LDR, OP_LEA} \<longrightarrow>
        (\<exists>t. step s = Inr t \<and> cond_valid t \<and> popcount (reg t R_COND) = 1))
   \<and> (cond_valid s \<and> last_state (step s) = Some t \<longrightarrow> cond_valid t)"
proof (intro conjI impI)
  show "reg (boot img inp) R_COND = FL_ZRO" by (rule boot_cond)
next
  assume h: "last_state (run n (boot img inp)) = Some s'"
  have b: "cond_valid (boot img inp)" unfolding cond_valid_def boot_cond by simp
  from h have "run n (boot img inp) = Inr s' \<or> run n (boot img inp) = Inl (Aborted s')"
    by (rule last_state_cases)
  with b show "cond_valid s'" using run_cond run_abort_cond by blast
  then show "popcount (reg s' R_COND) = 1" by (rule popcount_cond)
next
  assume "drop_bit 12 (fst (mem_read (reg s R_PC) s))
          \<in> {OP_ADD, OP_AND, OP_NOT, OP_LD, OP_LDI, OP_LDR, OP_LEA}"
  then obtain t where "step s = Inr t" and "cond_valid t"
    unfolding step_fetch execute_def Let_def
    by (auto simp add: flag_ops_cond)
  then show "\<exists>t. step s = Inr t \<and> cond_valid t \<and> popcount (reg t R_COND) = 1"
    using popcount_cond by blast
next
  assume h: "cond_valid s \<and> last_state (step s) = Some t"
  then have "step s = Inr t \<or> step s = Inl (Aborted t)"
    by (intro last_state_cases) simp
  with h show "cond_valid t" using step_cond step_abort_cond by blast
qed

theorem cond_one_hot_witness:
  "last_state (run 1 add_start) = Some (add_start\<lparr>reg := (reg add_start)(R_PC := 0x3001, R_R0 := 1, R_COND := FL_POS)\<rparr>)
   \<and> drop_bit 12 (fst (mem_read (reg add_start R_PC) add_start))
          \<in> {OP_ADD, OP_AND, OP_NOT, OP_LD, OP_LDI, OP_LDR, OP_LEA}
   \<and> cond_valid add_start
   \<and> last_state (step add_start) = Some (add_start\<lparr>reg := (reg add_start)(R_PC := 0x3001, R_R0 := 1, R_COND := FL_POS)\<rparr>)
   \<and> cond_valid (add_start\<lparr>reg := (reg add_start)(R_PC := 0x3001, R_R0 := 1, R_COND := FL_POS)\<rparr>)
   \<and> popcount (reg (add_start\<lparr>reg := (reg add_start)(R_PC := 0x3001, R_R0 := 1, R_COND := FL_POS)\<rparr>) R_COND) = 1"
proof -
  let ?t = "add_start\<lparr>reg := (reg add_start)(R_PC := 0x3001, R_R0 := 1, R_COND := FL_POS)\<rparr>"
  have st: "step add_start = Inr ?t"
    by (simp add: add_start_def boot_def step_def mem_read_def execute_def op_add_def
        sign_extend_def update_flags_def fun_upd_twist)
  have r: "run 1 add_start = Inr ?t"
    using st by (simp add: add_start_def boot_def)
  have f: "drop_bit 12 (fst (mem_read (reg add_start R_PC) add_start))
          \<in> {OP_ADD, OP_AND, OP_NOT, OP_LD, OP_LDI, OP_LDR, OP_LEA}"
    by (simp add: add_start_def boot_def mem_read_def)
  have v: "cond_valid add_start" by (simp add: add_start_def boot_def cond_valid_def)
  show ?thesis
    using cond_one_hot [of "(\<lambda>_. 0)(0x3000 := 0x1021)" "[]" 1 ?t add_start ?t] st r f v
    unfolding add_start_def [symmetric]
    by (simp add: last_state_def)
qed


subsection \<open>PUTS\<close>

lemma in_range_nonzero:
  fixes r z' :: u16
  assumes n: "unat r \<le> n" "n < unat z'"
  shows "r \<le> of_nat n \<and> (of_nat n :: u16) < z'"
proof -
  have un: "unat (of_nat n :: u16) = n"
    using n by (intro le_unat_uoi [of n z']) simp
  have "(of_nat n :: u16) < z'" unfolding word_less_nat_alt un using n by simp
  moreover have "r \<le> of_nat n" unfolding word_le_nat_alt un using n by simp
  ultimately show ?thesis by simp
qed

lemma puts_loop_output:
  assumes "c \<le> k" and "k < MEMORY_MAX" and "memory s (of_nat k) = 0"
    and "\<And>n. c \<le> n \<Longrightarrow> n < k \<Longrightarrow> memory s (of_nat n) \<noteq> 0"
  shows "puts_loop c s =
           Inr (s\<lparr>stdout := stdout s @ map (\<lambda>n. ucast (memory s (of_nat n))) [c..<k]\<rparr>)"
  using assms
proof (induction "k - c" arbitrary: c s)
  case 0
  then have "c = k" by simp
  then have "puts_loop c s = Inr s"
    using "0.prems"(2,3) by (subst puts_loop.simps) simp
  then show ?case using \<open>c = k\<close> by simp
next
  case (Suc d)
  then have lt: "c < k" by simp
  let ?s = "s\<lparr>stdout := stdout s @ [ucast (memory s (of_nat c))]\<rparr>"
  have nz: "memory s (of_nat c) \<noteq> 0" using Suc.prems(4) [of c] lt by simp
  have cm: "\<not> MEMORY_MAX \<le> c" using lt Suc.prems(2) by simp
  have "puts_loop c s = puts_loop (c + 1) ?s"
    by (subst puts_loop.simps) (simp only: nz cm if_False)
  also have "\<dots> = Inr (?s\<lparr>stdout := stdout ?s @ map (\<lambda>n. ucast (memory ?s (of_nat n))) [c + 1..<k]\<rparr>)"
  proof (rule Suc.hyps(1))
    show "d = k - (c + 1)" using Suc.hyps(2) by simp
    show "c + 1 \<le> k" using lt by simp
    show "k < MEMORY_MAX" by (rule Suc.prems(2))
    show "memory ?s (of_nat k) = 0" using Suc.prems(3) by simp
    show "memory ?s (of_nat n) \<noteq> 0" if "c + 1 \<le> n" "n < k" for n
      using Suc.prems(4) [of n] that by simp
  qed
  also have "\<dots> = Inr (s\<lparr>stdout := stdout s @ map (\<lambda>n. ucast (memory s (of_nat n))) [c..<k]\<rparr>)"
    using upt_conv_Cons [OF lt] by simp
  finally show ?case .
qed

text \<open>
  Claim C10. If some address \<open>z\<close> from \<open>R0\<close> upwards holds a zero word, the PUTS routine
  returns, and what it has done is to append to \<open>stdout\<close> the low bytes of the words at
  \<open>R0\<close>, \<open>R0 + 1\<close>, ... up to, not including, the least such address, in order;
  registers, memory and input are as before.
\<close>

theorem puts_writes_string:
  assumes "reg s R_R0 \<le> z" and "memory s z = 0"
  shows "trap_puts s =
           Inr (s\<lparr>stdout := stdout s @ map (\<lambda>n. ucast (memory s (of_nat n)))
                  [unat (reg s R_R0)..<unat (LEAST a. reg s R_R0 \<le> a \<and> memory s a = 0)]\<rparr>)"
proof -
  define z' where "z' = (LEAST a. reg s R_R0 \<le> a \<and> memory s a = 0)"
  have P: "reg s R_R0 \<le> z' \<and> memory s z' = 0"
    unfolding z'_def
    by (rule LeastI [of "\<lambda>a. reg s R_R0 \<le> a \<and> memory s a = 0" z]) (use assms in simp)
  have least: "\<not> (reg s R_R0 \<le> a \<and> memory s a = 0)" if "a < z'" for a
    using that unfolding z'_def by (rule not_less_Least)
  have nz: "memory s (of_nat n) \<noteq> 0" if "unat (reg s R_R0) \<le> n" "n < unat z'" for n
  proof -
    have "reg s R_R0 \<le> of_nat n \<and> (of_nat n :: u16) < z'"
      using that by (rule in_range_nonzero)
    then show ?thesis using least [of "of_nat n"] by simp
  qed
  have "puts_loop (unat (reg s R_R0)) s =
          Inr (s\<lparr>stdout := stdout s @ map (\<lambda>n. ucast (memory s (of_nat n)))
                  [unat (reg s R_R0)..<unat z']\<rparr>)"
  proof (rule puts_loop_output)
    show "unat (reg s R_R0) \<le> unat z'" using P by (simp add: word_le_nat_alt)
    show "unat z' < MEMORY_MAX" using unsigned_less [of z'] by simp
    show "memory s (of_nat (unat z')) = 0" using P by simp
    show "memory s (of_nat n) \<noteq> 0" if "unat (reg s R_R0) \<le> n" "n < unat z'" for n
      using that by (rule nz)
  qed
  then show ?thesis by (simp add: trap_puts_def z'_def)
qed

theorem puts_writes_string_witness:
  "reg hi_state R_R0 \<le> 0x4003 \<and> memory hi_state 0x4003 = 0
     \<and> trap_puts hi_state = Inr (hi_state\<lparr>stdout := [0x48, 0x49, 0x21]\<rparr>)"
proof -
  have h: "reg hi_state R_R0 \<le> 0x4003" "memory hi_state 0x4003 = 0"
    by (simp_all add: hi_state_def)
  have l: "(LEAST a. reg hi_state R_R0 \<le> a \<and> memory hi_state a = 0) = 0x4003"
  proof (rule Least_equality)
    show "reg hi_state R_R0 \<le> 0x4003 \<and> memory hi_state 0x4003 = 0" using h by simp
  next
    fix y assume y: "reg hi_state R_R0 \<le> y \<and> memory hi_state y = 0"
    then have "y \<noteq> 0x4000" "y \<noteq> 0x4001" "y \<noteq> 0x4002" "0x4000 \<le> y"
      by (auto simp add: hi_state_def)
    then show "0x4003 \<le> y" by unat_arith
  qed
  have u: "[unat (0x4000 :: u16)..<unat (0x4003 :: u16)] = [0x4000, 0x4001, 0x4002]"
    by (simp add: upt_conv_Cons)
  show ?thesis
    using puts_writes_string [OF h] h unfolding l
    by (simp add: hi_state_def upt_conv_Cons)
qed

subsection \<open>Where the source departs from the instruction set\<close>

text \<open>
  Claim C1. NOT should set \<open>DR\<close> to the complement of the value of \<open>SR1\<close> and then
  update the flags from \<open>DR\<close>. The source complements the register number instead:
  \<open>NOT R0, R1\<close> with \<open>R1 = 0x00FF\<close> leaves \<open>R0 = 0xFFFE\<close>, the complement of 1, and
  not \<open>0xFF00\<close>; the flags do follow the new \<open>R0\<close>.
\<close>

theorem not_complements_register_number:
  "\<exists>s'. step not_start = Inr s' \<and> reg not_start 1 = 0x00FF
     \<and> reg s' 0 = 0xFFFE \<and> reg s' 0 = NOT 1 \<and> reg s' 0 \<noteq> NOT (reg not_start 1)
     \<and> reg s' R_COND = FL_NEG"
  by (simp add: not_start_def step_def mem_read_def execute_def op_not_def update_flags_def)

text \<open>
  Claim C2. STI should store \<open>SR\<close> at the address held in memory at \<open>PC + offset\<close>. The
  source indexes \<open>reg\<close> with \<open>R_PC + offset\<close>: with offset 1 it takes the address from
  memory at the value of \<open>COND\<close>, so \<open>0xBEEF\<close> lands at \<open>0x5000\<close> and \<open>0x4000\<close>, where
  the pointer slot points, keeps its zero; with offset 2 the index is outside \<open>reg\<close>.
\<close>

theorem sti_indexes_registers:
  "(\<exists>s'. step sti_start = Inr s' \<and> memory sti_start (reg sti_start R_PC + 1 + 1) = 0x4000
      \<and> reg sti_start R_R0 = 0xBEEF \<and> memory s' 0x4000 = 0 \<and> memory s' 0x5000 = 0xBEEF)
   \<and> step sti_far_start = Inl Out_Of_Bounds"
  by (simp add: sti_start_def sti_far_start_def boot_def step_def mem_read_def mem_write_def
      execute_def op_sti_def sign_extend_def)

text \<open>
  Claim C3. ST followed by LD of the same address should load the value the source
  register held. The source stores the register number: after \<open>ST R1, #5\<close> and
  \<open>LD R2, #4\<close> with \<open>R1 = 0x1234\<close>, both addressing \<open>0x3006\<close>, \<open>R2\<close> holds 1.
\<close>

theorem st_then_ld_loads_register_number:
  "\<exists>s'. run 2 st_ld_start = Inr s' \<and> reg st_ld_start 1 = 0x1234
     \<and> memory s' 0x3006 = 1 \<and> reg s' 2 = 1 \<and> reg s' 2 \<noteq> reg st_ld_start 1"
proof -
  let ?s1 = "\<lparr>memory = (\<lambda>_. 0)(0x3000 := 0x3205, 0x3001 := 0x2404, 0x3006 := 1),
      reg = (\<lambda>_. 0)(R_COND := FL_ZRO, R_PC := 0x3001, 1 := 0x1234),
      running = True, stdin = [], stdout = []\<rparr> :: machine"
  let ?s2 = "\<lparr>memory = (\<lambda>_. 0)(0x3000 := 0x3205, 0x3001 := 0x2404, 0x3006 := 1),
      reg = (\<lambda>_. 0)(R_COND := FL_POS, R_PC := 0x3002, 1 := 0x1234, 2 := 1),
      running = True, stdin = [], stdout = []\<rparr> :: machine"
  have 1: "step st_ld_start = Inr ?s1"
    by (simp add: st_ld_start_def step_def mem_read_def mem_write_def execute_def op_st_def
        sign_extend_def fun_upd_twist)
  have 2: "step ?s1 = Inr ?s2"
    by (simp add: step_def mem_read_def mem_write_def execute_def op_ld_def
        sign_extend_def update_flags_def fun_upd_twist)
  have "run 2 st_ld_start = Inr ?s2"
    using 1 2 by (simp add: numeral_2_eq_2 st_ld_start_def)
  then show ?thesis by (simp add: st_ld_start_def)
qed

text \<open>
  Claim C4. STR should store the value of \<open>SR\<close> at \<open>reg[SR1] + offset\<close> and change no
  register. The source stores the register number: \<open>STR R1, R2, #0\<close> with
  \<open>R1 = 0x1234\<close> and \<open>R2 = 0x4000\<close> writes 1 to \<open>0x4000\<close>. No register other than the
  \<open>PC\<close>, advanced by the fetch, changes.
\<close>

theorem str_stores_register_number:
  "\<exists>s'. step str_start = Inr s' \<and> reg str_start 1 = 0x1234 \<and> reg str_start 2 = 0x4000
     \<and> memory s' 0x4000 = 1 \<and> memory s' 0x4000 \<noteq> reg str_start 1
     \<and> reg s' = (reg str_start)(R_PC := reg str_start R_PC + 1)"
  by (simp add: str_start_def step_def mem_read_def mem_write_def execute_def op_str_def
      sign_extend_def)

text \<open>
  Claim C5. A TRAP with a vector outside \<open>0x20..0x25\<close> should save \<open>R7\<close> and go on with
  the next fetch. In the source the TRAP case runs on into \<open>abort()\<close>: \<open>TRAP 0x00\<close> at
  \<open>0x3000\<close> saves \<open>R7 = 0x3001\<close> and aborts.
\<close>

theorem unknown_trap_aborts:
  "step trap_start =
     Inl (Aborted (trap_start\<lparr>reg := (reg trap_start)(R_PC := 0x3001, R_R7 := 0x3001)\<rparr>))"
  by (simp add: trap_start_def boot_def step_def mem_read_def execute_def op_trap_def
      trap_dispatch_def)

end
